theory Spec2Isabelle
  imports Main "HOL-Library.Word"
begin

section \<open>Data model\<close>

text \<open>
  A \<^verbatim>\<open>Uint8Array\<close> holds bytes; a JavaScript string is a sequence of UTF-16 code
  units, which is what \<^verbatim>\<open>length\<close>, \<^verbatim>\<open>charCodeAt\<close> and \<^verbatim>\<open>slice\<close> count.
  \<^verbatim>\<open>String.fromCharCode(b)\<close> of a byte is the code unit \<open>unat b\<close>, and storing a code
  unit into a \<^verbatim>\<open>Uint8Array\<close> keeps it modulo 256, which is \<open>word_of_nat\<close>.
\<close>

type_synonym byte = "8 word"
type_synonym js_string = "nat list"

text \<open>An ASCII literal as a JavaScript string.\<close>

definition utf16 :: "string \<Rightarrow> js_string" where
  "utf16 s = map of_char s"

text \<open>
  What the code throws. The two \<^verbatim>\<open>new Error(...)\<close> of \<^verbatim>\<open>aes-gcm.ts\<close> and the
  \<^verbatim>\<open>TypeError\<close> of \<^verbatim>\<open>bytesToUtf8\<close> are raised by the library itself; everything
  else comes from the platform and is never caught by the library: a \<^verbatim>\<open>DOMException\<close>
  of \<^verbatim>\<open>atob\<close> or \<^verbatim>\<open>crypto.subtle\<close>, or the \<^verbatim>\<open>TypeError\<close> or \<^verbatim>\<open>RangeError\<close> of the
  \<^verbatim>\<open>Uint8Array\<close> constructor (\<open>NativeError\<close>).
  \<^item> \<open>InvalidKeyLength\<close>: \<^verbatim>\<open>Error('AES-GCM requires 32-byte key (AES-256)')\<close>
  \<^item> \<open>InvalidIvLength\<close>: \<^verbatim>\<open>Error('AES-GCM IV must be 12 bytes')\<close>
  \<^item> \<open>InvalidInputType\<close>: \<^verbatim>\<open>TypeError('bytesToUtf8 expects ArrayBuffer or ArrayBufferView')\<close>
\<close>

datatype dom_exception =
  InvalidCharacterError | OperationError | DataError | SyntaxError | NotSupportedError
  | InvalidAccessError

datatype js_error = TypeError | RangeError

datatype error =
  InvalidKeyLength | InvalidIvLength | InvalidInputType | DOMException dom_exception
  | NativeError js_error

text \<open>The specification's name for the failure of a Base64 decode.\<close>

abbreviation InvalidEncoding :: error where
  "InvalidEncoding \<equiv> DOMException InvalidCharacterError"

fun raise_dom :: "dom_exception + 'a \<Rightarrow> error + 'a" where
  "raise_dom (Inl e) = Inl (DOMException e)"
| "raise_dom (Inr v) = Inr v"


section \<open>The platform's \<^verbatim>\<open>btoa\<close> and \<^verbatim>\<open>atob\<close>\<close>

text \<open>
  \<^verbatim>\<open>encoders.ts\<close> delegates Base64 to the platform functions \<^verbatim>\<open>btoa\<close> and \<^verbatim>\<open>atob\<close>.
  They are written here after the HTML standard: \<^verbatim>\<open>btoa\<close> throws
  \<^verbatim>\<open>InvalidCharacterError\<close> on a code unit above 255 and otherwise encodes as RFC 4648
  section 4; \<^verbatim>\<open>atob\<close> is the \<^emph>\<open>forgiving-base64 decode\<close> of the Infra standard, step by
  step.
\<close>

definition b64_alphabet :: js_string where
  "b64_alphabet = utf16 ''ABCDEFGHIJKLMNOPQRSTUVWXYZabcdefghijklmnopqrstuvwxyz0123456789+/''"

text \<open>Three octets give four 6-bit groups; a last group of one or two octets is padded with zero bits.\<close>

fun sextets :: "nat list \<Rightarrow> nat list" where
  "sextets (a # b # c # r) =
     [a div 4, (a mod 4) * 16 + b div 16, (b mod 16) * 4 + c div 64, c mod 64] @ sextets r"
| "sextets [a, b] = [a div 4, (a mod 4) * 16 + b div 16, (b mod 16) * 4]"
| "sextets [a] = [a div 4, (a mod 4) * 16]"
| "sextets [] = []"

definition b64_encode :: "nat list \<Rightarrow> js_string" where
  "b64_encode data =
     map (\<lambda>v. b64_alphabet ! v) (sextets data) @ replicate ((3 - length data mod 3) mod 3) 61"

definition btoa :: "js_string \<Rightarrow> dom_exception + js_string" where
  "btoa data =
     (if list_ex (\<lambda>c. 255 < c) data then Inl InvalidCharacterError else Inr (b64_encode data))"

text \<open>ASCII whitespace: TAB, LF, FF, CR and SPACE.\<close>

definition ascii_whitespace :: "nat \<Rightarrow> bool" where
  "ascii_whitespace c = (c = 9 \<or> c = 10 \<or> c = 12 \<or> c = 13 \<or> c = 32)"

text \<open>Step 2 of the decode: one or two \<^verbatim>\<open>=\<close> at the end are removed.\<close>

definition remove_padding :: "js_string \<Rightarrow> js_string" where
  "remove_padding d =
     (if d \<noteq> [] \<and> last d = 61
      then (let d' = butlast d in if d' \<noteq> [] \<and> last d' = 61 then butlast d' else d')
      else d)"

fun index_of :: "'a \<Rightarrow> 'a list \<Rightarrow> nat option" where
  "index_of x [] = None"
| "index_of x (y # ys) = (if x = y then Some 0 else map_option Suc (index_of x ys))"

text \<open>
  Four 6-bit groups give three octets; of a last group of two the low 4 bits are discarded,
  of a last group of three the low 2 bits.
\<close>

fun octets :: "nat list \<Rightarrow> nat list" where
  "octets (p # q # r # s # rest) =
     [p * 4 + q div 16, (q mod 16) * 16 + r div 4, (r mod 4) * 64 + s] @ octets rest"
| "octets [p, q, r] = [p * 4 + q div 16, (q mod 16) * 16 + r div 4]"
| "octets [p, q] = [p * 4 + q div 16]"
| "octets _ = []"

definition atob :: "js_string \<Rightarrow> dom_exception + js_string" where
  "atob data =
     (let d1 = filter (\<lambda>c. \<not> ascii_whitespace c) data;
          d2 = (if length d1 mod 4 = 0 then remove_padding d1 else d1)
      in if length d2 mod 4 = 1 then Inl InvalidCharacterError
         else (case those (map (\<lambda>c. index_of c b64_alphabet) d2) of
                 None \<Rightarrow> Inl InvalidCharacterError
               | Some vs \<Rightarrow> Inr (octets vs)))"


section \<open>\<^verbatim>\<open>encoders.ts\<close>\<close>

definition toBase64 :: "byte list \<Rightarrow> error + js_string" where
  "toBase64 bytes = (let binary = map unat bytes in raise_dom (btoa binary))"

definition fromBase64 :: "js_string \<Rightarrow> error + byte list" where
  "fromBase64 b64 =
     (case raise_dom (atob b64) of
        Inl e \<Rightarrow> Inl e
      | Inr binary \<Rightarrow> Inr (map word_of_nat binary))"

text \<open>The \<^verbatim>\<open>while\<close> loop of \<^verbatim>\<open>toBase64Url\<close> that moves \<^verbatim>\<open>end\<close> left over trailing \<^verbatim>\<open>=\<close>.\<close>

fun strip_end :: "js_string \<Rightarrow> nat \<Rightarrow> nat" where
  "strip_end b64 e = (if 0 < e \<and> b64 ! (e - 1) = 61 then strip_end b64 (e - 1) else e)"

declare strip_end.simps [simp del]

definition toBase64Url :: "byte list \<Rightarrow> error + js_string" where
  "toBase64Url bytes =
     (case toBase64 bytes of
        Inl e \<Rightarrow> Inl e
      | Inr b64 \<Rightarrow>
          (let noPad = take (strip_end b64 (length b64)) b64
           in Inr (map (\<lambda>ch. if ch = 43 then 45 else if ch = 47 then 95 else ch) noPad)))"

text \<open>\<^verbatim>\<open>s.replace(/a/g, b)\<close> for single characters.\<close>

definition replace_all :: "nat \<Rightarrow> nat \<Rightarrow> js_string \<Rightarrow> js_string" where
  "replace_all a b s = map (\<lambda>c. if c = a then b else c) s"

text \<open>The string that \<^verbatim>\<open>fromBase64Url\<close> hands to \<^verbatim>\<open>fromBase64\<close>.\<close>

definition padded :: "js_string \<Rightarrow> js_string" where
  "padded b64url =
     replace_all 95 47 (replace_all 45 43 b64url) @ drop ((length b64url + 3) mod 4) [61, 61, 61]"

definition fromBase64Url :: "js_string \<Rightarrow> error + byte list" where
  "fromBase64Url b64url = fromBase64 (padded b64url)"









section \<open>The store of byte arrays\<close>

text \<open>
  \<^verbatim>\<open>aes-gcm.ts\<close> passes \<^verbatim>\<open>Uint8Array\<close>s by reference, returns the caller's own
  \<^verbatim>\<open>iv\<close> and creates new arrays, so its functions run over a store: a reference is
  an index into the list of arrays created so far, and creating an array appends to it.
  References held by a JavaScript program always point to an existing array; for any
  other index \<open>bytes_at\<close> is empty.
\<close>

type_synonym ref = nat
type_synonym store = "byte list list"

definition bytes_at :: "store \<Rightarrow> ref \<Rightarrow> byte list" where
  "bytes_at h r = (if r < length h then h ! r else [])"

definition alloc :: "store \<Rightarrow> byte list \<Rightarrow> ref \<times> store" where
  "alloc h bs = (length h, h @ [bs])"

text \<open>\<^verbatim>\<open>a[i] = v\<close> by the holder of a reference; out of range it does nothing.\<close>

definition write_byte :: "store \<Rightarrow> ref \<Rightarrow> nat \<Rightarrow> byte \<Rightarrow> store" where
  "write_byte h r i v = (if r < length h then h[r := (h ! r)[i := v]] else h)"


section \<open>The cryptographic provider\<close>

text \<open>
  \<^verbatim>\<open>crypto.subtle\<close> and \<^verbatim>\<open>crypto.getRandomValues\<close> belong to the platform. The provider
  is a parameter: a record of its operations as functions of the bytes they are given.
  \<open>'k\<close> is the opaque \<^verbatim>\<open>CryptoKey\<close>, \<open>'r\<close> the state of the random source. A rejected
  promise of the provider carries a \<^verbatim>\<open>DOMException\<close>.
\<close>

record AesGcmParams =
  p_name :: string
  p_iv :: "byte list"
  p_additionalData :: "byte list option"
  p_tagLength :: int

record ImportRequest =
  format :: string
  keyData :: "byte list"
  algorithm :: string
  extractable :: bool
  keyUsages :: "string list"

record ('k, 'r) crypto =
  getRandomByte :: "'r \<Rightarrow> byte \<times> 'r"
  subtle_importKey :: "ImportRequest \<Rightarrow> dom_exception + 'k"
  subtle_encrypt :: "AesGcmParams \<Rightarrow> 'k \<Rightarrow> byte list \<Rightarrow> dom_exception + byte list"
  subtle_decrypt :: "AesGcmParams \<Rightarrow> 'k \<Rightarrow> byte list \<Rightarrow> dom_exception + byte list"

text \<open>Every call that reaches the provider is logged with its arguments.\<close>

datatype 'k provider_call =
  GetRandomValues nat
  | ImportKey ImportRequest
  | Encrypt AesGcmParams 'k "byte list"
  | Decrypt AesGcmParams 'k "byte list"

record ('k, 'r) world =
  store :: store
  entropy :: 'r
  calls :: "'k provider_call list"

text \<open>\<^verbatim>\<open>env.ts\<close>: \<^verbatim>\<open>globalThis.crypto\<close> when it is defined, Node's \<^verbatim>\<open>webcrypto\<close> otherwise.\<close>

record ('k, 'r) env =
  globalThis_crypto :: "('k, 'r) crypto option"
  webcrypto :: "('k, 'r) crypto"

definition getCrypto :: "('k, 'r) env \<Rightarrow> ('k, 'r) crypto" where
  "getCrypto e = (case globalThis_crypto e of Some c \<Rightarrow> c | None \<Rightarrow> webcrypto e)"

text \<open>
  \<^verbatim>\<open>crypto.getRandomValues(a)\<close> overwrites the array \<open>a\<close> in place, one byte of the
  source per element; the array keeps its length.
\<close>

fun random_bytes :: "('r \<Rightarrow> byte \<times> 'r) \<Rightarrow> nat \<Rightarrow> 'r \<Rightarrow> byte list \<times> 'r" where
  "random_bytes g 0 s = ([], s)"
| "random_bytes g (Suc n) s =
     (let (b, s1) = g s; (bs, s2) = random_bytes g n s1 in (b # bs, s2))"

definition getRandomValues ::
  "('k, 'r) crypto \<Rightarrow> ('k, 'r) world \<Rightarrow> ref \<Rightarrow> ('k, 'r) world" where
  "getRandomValues c w a =
     (let n = length (bytes_at (store w) a);
          (bs, s) = random_bytes (getRandomByte c) n (entropy w)
      in w\<lparr>store := (store w)[a := bs], entropy := s, calls := calls w @ [GetRandomValues n]\<rparr>)"


section \<open>\<^verbatim>\<open>aes-gcm.ts\<close>\<close>

record AesGcmOptions =
  o_iv :: "ref option"
  o_aad :: "ref option"
  o_tagLength :: "int option"

record EncryptionResult =
  r_iv :: ref
  r_ciphertext :: ref

definition DEFAULT_IV_BYTES :: nat where
  "DEFAULT_IV_BYTES = 12"

definition DEFAULT_TAG_BITS :: int where
  "DEFAULT_TAG_BITS = 128"

text \<open>
  \<^verbatim>\<open>rawKey.slice()\<close> is a new array with the same bytes; the provider is given the copy.
\<close>

definition importKey ::
  "('k, 'r) env \<Rightarrow> ('k, 'r) world \<Rightarrow> ref \<Rightarrow> (error + 'k) \<times> ('k, 'r) world" where
  "importKey e w rawKey =
     (if length (bytes_at (store w) rawKey) \<noteq> 32 then (Inl InvalidKeyLength, w)
      else
        (let crypto = getCrypto e;
             (keyData, h1) = alloc (store w) (bytes_at (store w) rawKey);
             req = \<lparr>format = ''raw'', keyData = bytes_at h1 keyData, algorithm = ''AES-GCM'',
                    extractable = True, keyUsages = [''encrypt'', ''decrypt'']\<rparr>;
             w1 = w\<lparr>store := h1, calls := calls w @ [ImportKey req]\<rparr>
         in (raise_dom (subtle_importKey crypto req), w1)))"

definition randomIv :: "('k, 'r) env \<Rightarrow> ('k, 'r) world \<Rightarrow> ref \<times> ('k, 'r) world" where
  "randomIv e w =
     (let crypto = getCrypto e;
          (iv, h1) = alloc (store w) (replicate DEFAULT_IV_BYTES 0)
      in (iv, getRandomValues crypto (w\<lparr>store := h1\<rparr>) iv))"

text \<open>
  The provider reads the bytes of \<^verbatim>\<open>iv\<close>, \<^verbatim>\<open>additionalData\<close> and the data when it is
  called, and resolves with a new \<^verbatim>\<open>ArrayBuffer\<close>; \<^verbatim>\<open>new Uint8Array(ct)\<close> is a view of
  that buffer, not a copy of it.
\<close>

definition encrypt ::
  "('k, 'r) env \<Rightarrow> ('k, 'r) world \<Rightarrow> 'k \<Rightarrow> ref \<Rightarrow> AesGcmOptions \<Rightarrow>
   (error + EncryptionResult) \<times> ('k, 'r) world" where
  "encrypt e w key plaintext opts =
     (let crypto = getCrypto e;
          (iv, w1) = (case o_iv opts of Some i \<Rightarrow> (i, w) | None \<Rightarrow> randomIv e w)
      in if length (bytes_at (store w1) iv) \<noteq> DEFAULT_IV_BYTES then (Inl InvalidIvLength, w1)
         else
           (let tagLength = (case o_tagLength opts of Some t \<Rightarrow> t | None \<Rightarrow> DEFAULT_TAG_BITS);
                params = \<lparr>p_name = ''AES-GCM'', p_iv = bytes_at (store w1) iv,
                          p_additionalData = map_option (bytes_at (store w1)) (o_aad opts),
                          p_tagLength = tagLength\<rparr>;
                data = bytes_at (store w1) plaintext;
                w2 = w1\<lparr>calls := calls w1 @ [Encrypt params key data]\<rparr>
            in case subtle_encrypt crypto params key data of
                 Inl ex \<Rightarrow> (Inl (DOMException ex), w2)
               | Inr bs \<Rightarrow>
                   (let (ct, h3) = alloc (store w2) bs
                    in (Inr \<lparr>r_iv = iv, r_ciphertext = ct\<rparr>, w2\<lparr>store := h3\<rparr>))))"

text \<open>
  The options of \<^verbatim>\<open>decrypt\<close> are \<^verbatim>\<open>Omit<AesGcmOptions, 'iv'>\<close>: the same object type
  whose \<^verbatim>\<open>iv\<close> is never read.
\<close>

definition decrypt ::
  "('k, 'r) env \<Rightarrow> ('k, 'r) world \<Rightarrow> 'k \<Rightarrow> ref \<Rightarrow> ref \<Rightarrow> AesGcmOptions \<Rightarrow>
   (error + ref) \<times> ('k, 'r) world" where
  "decrypt e w key iv ciphertext opts =
     (let crypto = getCrypto e
      in if length (bytes_at (store w) iv) \<noteq> DEFAULT_IV_BYTES then (Inl InvalidIvLength, w)
         else
           (let tagLength = (case o_tagLength opts of Some t \<Rightarrow> t | None \<Rightarrow> DEFAULT_TAG_BITS);
                params = \<lparr>p_name = ''AES-GCM'', p_iv = bytes_at (store w) iv,
                          p_additionalData = map_option (bytes_at (store w)) (o_aad opts),
                          p_tagLength = tagLength\<rparr>;
                data = bytes_at (store w) ciphertext;
                w2 = w\<lparr>calls := calls w @ [Decrypt params key data]\<rparr>
            in case subtle_decrypt crypto params key data of
                 Inl ex \<Rightarrow> (Inl (DOMException ex), w2)
               | Inr bs \<Rightarrow>
                   (let (pt, h3) = alloc (store w2) bs
                    in (Inr pt, w2\<lparr>store := h3\<rparr>))))"


section \<open>What is assumed of the provider\<close>

text \<open>
  The properties of a Web Crypto provider that the theorems below name as hypotheses.
  \<open>aead_correct\<close>: decrypting, under the same parameters and key, what the provider's
  AES-GCM encryption returned gives back the data. \<open>imports_aes256\<close>: a raw 32-byte key is
  accepted for AES-GCM with the usages \<^verbatim>\<open>encrypt\<close> and \<^verbatim>\<open>decrypt\<close>.
\<close>

definition aead_correct :: "('k, 'r) crypto \<Rightarrow> bool" where
  "aead_correct c =
     (\<forall>params key data bs.
        subtle_encrypt c params key data = Inr bs \<longrightarrow> subtle_decrypt c params key bs = Inr data)"

definition imports_aes256 :: "('k, 'r) crypto \<Rightarrow> bool" where
  "imports_aes256 c =
     (\<forall>kd. length kd = 32 \<longrightarrow>
        (\<exists>k. subtle_importKey c
               \<lparr>format = ''raw'', keyData = kd, algorithm = ''AES-GCM'', extractable = True,
                keyUsages = [''encrypt'', ''decrypt'']\<rparr> = Inr k))"


section \<open>A small provider for concrete runs\<close>

text \<open>
  A stand-in for the provider, used only to run the functions on concrete stores: it is not
  a cipher. It accepts the five legal tag lengths, adds 1 to every byte and appends
  \<open>tagLength / 8\<close> bytes that depend on the key, the iv and the additional data.
\<close>

definition legal_tag :: "int \<Rightarrow> bool" where
  "legal_tag t = (t = 96 \<or> t = 104 \<or> t = 112 \<or> t = 120 \<or> t = 128)"

definition fixture_tag :: "AesGcmParams \<Rightarrow> byte list \<Rightarrow> byte list" where
  "fixture_tag p k =
     replicate (nat (p_tagLength p div 8))
       (word_of_nat (length k + length (p_iv p) +
          (case p_additionalData p of None \<Rightarrow> 0 | Some a \<Rightarrow> Suc (length a))))"

definition fixture_crypto :: "(byte list, nat) crypto" where
  "fixture_crypto =
     \<lparr>getRandomByte = (\<lambda>n. (word_of_nat n, Suc n)),
      subtle_importKey =
        (\<lambda>req. if length (keyData req) = 16 \<or> length (keyData req) = 24 \<or> length (keyData req) = 32
               then Inr (keyData req) else Inl DataError),
      subtle_encrypt =
        (\<lambda>p k data. if legal_tag (p_tagLength p)
                     then Inr (map (\<lambda>b. b + 1) data @ fixture_tag p k) else Inl OperationError),
      subtle_decrypt =
        (\<lambda>p k data.
           let n = length (fixture_tag p k)
           in if legal_tag (p_tagLength p) \<and> n \<le> length data \<and>
                 drop (length data - n) data = fixture_tag p k
              then Inr (map (\<lambda>b. b - 1) (take (length data - n) data))
              else Inl OperationError)\<rparr>"

definition fixture_env :: "(byte list, nat) env" where
  "fixture_env = \<lparr>globalThis_crypto = None, webcrypto = fixture_crypto\<rparr>"

text \<open>
  A store with a 12-byte iv at 0, a 3-byte plaintext at 1, a 2-byte aad at 2, a 32-byte raw
  key at 3 and an 8-byte array at 4.
\<close>

definition fixture_world :: "(byte list, nat) world" where
  "fixture_world =
     \<lparr>store = [replicate 12 7, [104, 105, 33], [1, 2], replicate 32 9, replicate 8 0],
      entropy = 0, calls = []\<rparr>"

definition fixture_opts :: AesGcmOptions where
  "fixture_opts = \<lparr>o_iv = Some 0, o_aad = Some 2, o_tagLength = Some 96\<rparr>"

definition fixture_key :: "byte list" where
  "fixture_key = replicate 32 9"


section \<open>Vocabulary of the statements about \<^verbatim>\<open>aes-gcm.ts\<close>\<close>

text \<open>The errors the library raises itself, as opposed to a \<^verbatim>\<open>DOMException\<close> of the platform.\<close>

definition local_error :: "error + 'a \<Rightarrow> bool" where
  "local_error x = (x = Inl InvalidKeyLength \<or> x = Inl InvalidIvLength \<or> x = Inl InvalidInputType)"

text \<open>
  The \<^verbatim>\<open>AesGcmParams\<close> object that \<^verbatim>\<open>encrypt\<close> and \<^verbatim>\<open>decrypt\<close> build for the iv
  \<open>i\<close> and the options \<open>opts\<close>, in the store \<open>h\<close>.
\<close>

definition forwarded_params :: "store \<Rightarrow> ref \<Rightarrow> AesGcmOptions \<Rightarrow> AesGcmParams" where
  "forwarded_params h i opts =
     \<lparr>p_name = ''AES-GCM'', p_iv = bytes_at h i,
      p_additionalData = map_option (bytes_at h) (o_aad opts),
      p_tagLength = (case o_tagLength opts of None \<Rightarrow> 128 | Some t \<Rightarrow> t)\<rparr>"


section \<open>Vocabulary of the statements about \<^verbatim>\<open>fromBase64\<close>\<close>

text \<open>
  \<open>outside_alphabet\<close>: some character is none of \<^verbatim>\<open>A-Z a-z 0-9 + / =\<close>.
  \<open>valid_padding\<close>: either there is no \<^verbatim>\<open>=\<close> and the length is not 1 modulo 4, or the
  length is a multiple of 4 and \<^verbatim>\<open>=\<close> occurs only as the last character (\<open>one_pad\<close>) or
  as the last two (\<open>two_pad\<close>).
\<close>

definition without_whitespace :: "js_string \<Rightarrow> js_string" where
  "without_whitespace s = filter (\<lambda>c. \<not> ascii_whitespace c) s"

definition outside_alphabet :: "js_string \<Rightarrow> bool" where
  "outside_alphabet s = list_ex (\<lambda>c. c \<notin> set b64_alphabet \<and> c \<noteq> 61) s"

definition one_pad :: "js_string \<Rightarrow> bool" where
  "one_pad d = (d \<noteq> [] \<and> last d = 61 \<and> 61 \<notin> set (butlast d))"

definition two_pad :: "js_string \<Rightarrow> bool" where
  "two_pad d = (d \<noteq> [] \<and> last d = 61 \<and> one_pad (butlast d))"

definition valid_padding :: "js_string \<Rightarrow> bool" where
  "valid_padding d =
     ((61 \<notin> set d \<and> length d mod 4 \<noteq> 1) \<or> (length d mod 4 = 0 \<and> (one_pad d \<or> two_pad d)))"

section \<open>Base64: the alphabet and the bit groups\<close>

lemma length_b64_alphabet: "length b64_alphabet = 64"
  by (simp add: b64_alphabet_def utf16_def)

lemma distinct_b64_alphabet: "distinct b64_alphabet"
  by (simp add: b64_alphabet_def utf16_def)

lemma b64_alphabet_all:
  "list_all (\<lambda>c. c \<noteq> 61 \<and> c \<noteq> 45 \<and> c \<noteq> 95 \<and> \<not> ascii_whitespace c) b64_alphabet"
  by (simp add: b64_alphabet_def utf16_def ascii_whitespace_def)

lemma b64_alphabet_excludes:
  "c \<in> set b64_alphabet \<Longrightarrow> c \<noteq> 61 \<and> c \<noteq> 45 \<and> c \<noteq> 95 \<and> \<not> ascii_whitespace c"
  using b64_alphabet_all unfolding list_all_iff by blast


lemma index_of_nth: "distinct xs \<Longrightarrow> n < length xs \<Longrightarrow> index_of (xs ! n) xs = Some n"
proof (induction xs arbitrary: n)
  case Nil
  then show ?case by simp
next
  case (Cons x xs)
  show ?case
  proof (cases n)
    case 0
    then show ?thesis by simp
  next
    case (Suc m)
    with Cons.prems have "xs ! m \<in> set xs" "x \<notin> set xs" "distinct xs" "m < length xs"
      by auto
    with Cons.IH [of m] Suc show ?thesis by auto
  qed
qed

lemma index_of_None: "index_of x xs = None \<longleftrightarrow> x \<notin> set xs"
  by (induction xs) auto

lemma sextet_bound2: "(b::nat) < 256 \<Longrightarrow> (a mod 4) * 16 + b div 16 < 64"
proof -
  assume "b < 256"
  then have "b div 16 < 16" by simp
  moreover have "a mod 4 < 4" by simp
  ultimately show ?thesis by linarith
qed

lemma sextet_bound3: "(c::nat) < 256 \<Longrightarrow> (b mod 16) * 4 + c div 64 < 64"
proof -
  assume "c < 256"
  then have "c div 64 < 4" by simp
  moreover have "b mod 16 < 16" by simp
  ultimately show ?thesis by linarith
qed

lemma sextets_bound: "\<forall>x\<in>set bs. x < 256 \<Longrightarrow> \<forall>v\<in>set (sextets bs). v < 64"
proof (induction bs rule: sextets.induct)
  case (1 a b c r)
  then have "a < 256" "b < 256" "c < 256" by auto
  with 1 sextet_bound2 [of b a] sextet_bound3 [of c b] show ?case by simp
next
  case (2 a b)
  then have "a < 256" "b < 256" by auto
  with sextet_bound2 [of b a] sextet_bound3 [of 0 b] show ?case by simp
next
  case (3 a)
  then have "a < 256" by auto
  with sextet_bound2 [of 0 a] show ?case by simp
next
  case 4
  then show ?case by simp
qed

lemma octets_sextets: "\<forall>x\<in>set bs. x < 256 \<Longrightarrow> octets (sextets bs) = bs"
proof (induction bs rule: sextets.induct)
  case (1 a b c r)
  then have "b < 256" "c < 256" by auto
  then have "b div 16 < 16" "c div 64 < 4" by simp_all
  with 1 show ?case by simp
next
  case (2 a b)
  then have "b < 256" by auto
  then have "b div 16 < 16" by simp
  then show ?case by simp
qed simp_all

lemma those_index_of:
  "\<forall>v\<in>set vs. v < 64 \<Longrightarrow>
   those (map (\<lambda>c. index_of c b64_alphabet) (map (\<lambda>v. b64_alphabet ! v) vs)) = Some vs"
  by (induction vs) (simp_all add: index_of_nth distinct_b64_alphabet length_b64_alphabet)

lemma digits_in_alphabet:
  "\<forall>v\<in>set vs. v < 64 \<Longrightarrow> set (map (\<lambda>v. b64_alphabet ! v) vs) \<subseteq> set b64_alphabet"
  by (auto simp: length_b64_alphabet)

lemma length_sextets_mod:
  "length (sextets bs) mod 4 = (if length bs mod 3 = 0 then 0 else length bs mod 3 + 1)"
proof (induction bs rule: sextets.induct)
  case (1 a b c r)
  have "length (a # b # c # r) = length r + 3"
    by simp
  then have "length (a # b # c # r) mod 3 = length r mod 3"
    by (simp only: mod_add_self2)
  moreover have "length (sextets (a # b # c # r)) = length (sextets r) + 4"
    by simp
  then have "length (sextets (a # b # c # r)) mod 4 = length (sextets r) mod 4"
    by (simp only: mod_add_self2)
  ultimately show ?case using 1 by simp
qed simp_all

lemma remove_padding_replicate:
  assumes "61 \<notin> set xs" "k \<le> 2"
  shows "remove_padding (xs @ replicate k 61) = xs"
proof -
  have nl: "xs \<noteq> [] \<Longrightarrow> last xs \<noteq> 61"
    using assms(1) last_in_set by fastforce
  consider "k = 0" | "k = 1" | "k = 2" using assms(2) by linarith
  then show ?thesis
  proof cases
    case 1
    then show ?thesis using nl by (auto simp: remove_padding_def)
  next
    case 2
    then show ?thesis using nl by (auto simp: remove_padding_def)
  next
    case 3
    then have "replicate k (61::nat) = [61, 61]" by (simp add: numeral_2_eq_2)
    then show ?thesis using nl by (simp add: remove_padding_def butlast_append)
  qed
qed

lemma strip_end_replicate:
  "61 \<notin> set xs \<Longrightarrow> strip_end (xs @ replicate k 61 @ ys) (length xs + k) = length xs"
proof (induction k arbitrary: ys)
  case 0
  show ?case
  proof (cases "xs = []")
    case True
    then show ?thesis by (simp add: strip_end.simps)
  next
    case False
    then have "last xs \<noteq> 61" using 0 last_in_set by fastforce
    moreover have "(xs @ ys) ! (length xs - 1) = last xs"
      using False by (simp add: nth_append last_conv_nth)
    ultimately show ?thesis by (simp add: strip_end.simps)
  qed
next
  case (Suc k)
  have eq: "xs @ replicate (Suc k) 61 @ ys = xs @ replicate k 61 @ (61 # ys)"
    by (simp add: replicate_app_Cons_same)
  have "(xs @ replicate k 61 @ (61 # ys)) ! (length xs + k) = 61"
    by (simp add: nth_append)
  then have "strip_end (xs @ replicate k 61 @ (61 # ys)) (length xs + Suc k) =
      strip_end (xs @ replicate k 61 @ (61 # ys)) (length xs + k)"
    by (subst strip_end.simps) simp
  with Suc.IH [OF Suc.prems, of "61 # ys"] eq show ?case by simp
qed

lemma pad_cases:
  fixes n :: nat
  obtains "n mod 3 = 0" "(3 - n mod 3) mod 3 = 0"
  | "n mod 3 = 1" "(3 - n mod 3) mod 3 = 2"
  | "n mod 3 = 2" "(3 - n mod 3) mod 3 = 1"
proof -
  have "n mod 3 < 3" by simp
  then consider "n mod 3 = 0" | "n mod 3 = 1" | "n mod 3 = 2" by linarith
  then show thesis
  proof cases
    case 1 then show ?thesis using that(1) by simp
  next
    case 2 then show ?thesis using that(2) by simp
  next
    case 3 then show ?thesis using that(3) by simp
  qed
qed

lemma encoded_length:
  "(length (sextets bs) + (3 - length bs mod 3) mod 3) mod 4 = 0"
proof (cases "length bs" rule: pad_cases)
  case 1
  with length_sextets_mod [of bs] show ?thesis by simp
next
  case 2
  with length_sextets_mod [of bs] have "length (sextets bs) mod 4 = 2" by simp
  then have "(length (sextets bs) + 2) mod 4 = 0" by presburger
  with 2 show ?thesis by simp
next
  case 3
  with length_sextets_mod [of bs] have "length (sextets bs) mod 4 = 3" by simp
  then have "(length (sextets bs) + 1) mod 4 = 0" by presburger
  with 3 show ?thesis by simp
qed

lemma rederived_padding:
  "drop ((length (sextets bs) + 3) mod 4) [61, 61, 61 :: nat] =
   replicate ((3 - length bs mod 3) mod 3) 61"
proof (cases "length bs" rule: pad_cases)
  case 1
  with length_sextets_mod [of bs] have "length (sextets bs) mod 4 = 0" by simp
  then have "(length (sextets bs) + 3) mod 4 = 3" by presburger
  with 1 show ?thesis by simp
next
  case 2
  with length_sextets_mod [of bs] have "length (sextets bs) mod 4 = 2" by simp
  then have "(length (sextets bs) + 3) mod 4 = 1" by presburger
  with 2 show ?thesis by (simp add: numeral_2_eq_2)
next
  case 3
  with length_sextets_mod [of bs] have "length (sextets bs) mod 4 = 3" by simp
  then have "(length (sextets bs) + 3) mod 4 = 2" by presburger
  with 3 show ?thesis by (simp add: numeral_2_eq_2)
qed

lemma atob_b64_encode:
  assumes "\<forall>x\<in>set bs. x < 256"
  shows "atob (b64_encode bs) = Inr bs"
proof -
  let ?ds = "map (\<lambda>v. b64_alphabet ! v) (sextets bs)"
  let ?k = "(3 - length bs mod 3) mod 3"
  have vs: "\<forall>v\<in>set (sextets bs). v < 64"
    using assms by (rule sextets_bound)
  have sub: "set ?ds \<subseteq> set b64_alphabet"
    using vs by (rule digits_in_alphabet)
  have no_ws: "filter (\<lambda>c. \<not> ascii_whitespace c) (b64_encode bs) = b64_encode bs"
    using sub b64_alphabet_excludes
    by (auto simp: b64_encode_def filter_id_conv ascii_whitespace_def)
  have len: "length (b64_encode bs) mod 4 = 0"
    using encoded_length [of bs] by (simp add: b64_encode_def)
  have "61 \<notin> set ?ds"
    using sub b64_alphabet_excludes by blast
  moreover have "?k \<le> 2" by simp
  ultimately have rp: "remove_padding (b64_encode bs) = ?ds"
    unfolding b64_encode_def by (rule remove_padding_replicate)
  have "length ?ds mod 4 \<noteq> 1"
    using length_sextets_mod [of bs] by (simp split: if_splits)
  moreover have "those (map (\<lambda>c. index_of c b64_alphabet) ?ds) = Some (sextets bs)"
    using vs by (rule those_index_of)
  ultimately show ?thesis
    using no_ws len rp octets_sextets [OF assms] by (simp add: atob_def)
qed

lemma unat_byte_bound: "\<forall>x\<in>set (map unat (bs :: byte list)). x < 256"
proof -
  have "unat b < 256" for b :: byte
    using unsigned_less [of b, where ?'a = nat] by simp
  then show ?thesis by simp
qed

lemma toBase64_eq: "toBase64 bs = Inr (b64_encode (map unat bs))"
proof -
  have "\<not> list_ex (\<lambda>c. 255 < c) (map unat bs)"
    using unat_byte_bound [of bs] by (auto simp: list_ex_iff)
  then show ?thesis by (simp add: toBase64_def btoa_def)
qed

lemma fromBase64_b64_encode: "fromBase64 (b64_encode (map unat bs)) = Inr bs"
  by (simp add: fromBase64_def atob_b64_encode [OF unat_byte_bound] map_idI)


section \<open>Base64 round trip\<close>

lemma url_translation_inverse:
  assumes "\<forall>c\<in>set xs. c \<noteq> 45 \<and> c \<noteq> 95"
  shows "replace_all 95 47 (replace_all 45 43
      (map (\<lambda>ch. if ch = 43 then 45 else if ch = 47 then 95 else ch) xs)) = xs"
  using assms by (induction xs) (simp_all add: replace_all_def)

lemma toBase64Url_eq:
  "toBase64Url bs =
   Inr (map (\<lambda>ch. if ch = 43 then 45 else if ch = 47 then 95 else ch)
     (map (\<lambda>v. b64_alphabet ! v) (sextets (map unat bs))))"
proof -
  let ?ds = "map (\<lambda>v. b64_alphabet ! v) (sextets (map unat bs))"
  let ?k = "(3 - length (map unat bs) mod 3) mod 3"
  have vs: "\<forall>v\<in>set (sextets (map unat bs)). v < 64"
    using unat_byte_bound [of bs] by (rule sextets_bound)
  have "61 \<notin> set ?ds"
    using digits_in_alphabet [OF vs] b64_alphabet_excludes by blast
  then have "strip_end (?ds @ replicate ?k 61 @ []) (length ?ds + ?k) = length ?ds"
    by (rule strip_end_replicate)
  then have "take (strip_end (b64_encode (map unat bs)) (length (b64_encode (map unat bs))))
      (b64_encode (map unat bs)) = ?ds"
    by (simp add: b64_encode_def)
  then show ?thesis
    by (simp add: toBase64Url_def toBase64_eq)
qed

lemma padded_toBase64Url:
  "padded (map (\<lambda>ch. if ch = 43 then 45 else if ch = 47 then 95 else ch)
     (map (\<lambda>v. b64_alphabet ! v) (sextets (map unat bs)))) = b64_encode (map unat bs)"
  for bs :: "byte list"
proof -
  let ?ds = "map (\<lambda>v. b64_alphabet ! v) (sextets (map unat bs))"
  have vs: "\<forall>v\<in>set (sextets (map unat bs)). v < 64"
    using unat_byte_bound [of bs] by (rule sextets_bound)
  have ex: "\<forall>c\<in>set ?ds. c \<noteq> 45 \<and> c \<noteq> 95"
    using digits_in_alphabet [OF vs] b64_alphabet_excludes by blast
  have "replace_all 95 47 (replace_all 45 43
      (map (\<lambda>ch. if ch = 43 then 45 else if ch = 47 then 95 else ch) ?ds)) = ?ds"
    using ex by (rule url_translation_inverse)
  moreover have "drop ((length (sextets (map unat bs)) + 3) mod 4) [61, 61, 61 :: nat] =
      replicate ((3 - length bs mod 3) mod 3) 61"
    using rederived_padding [of "map unat bs"] by simp
  ultimately show ?thesis
    by (simp add: padded_def b64_encode_def)
qed

text \<open>
  C6. For every byte sequence \<open>B\<close>, the empty one included, \<^verbatim>\<open>toBase64\<close> and
  \<^verbatim>\<open>toBase64Url\<close> succeed, \<^verbatim>\<open>fromBase64(toBase64(B))\<close> and
  \<^verbatim>\<open>fromBase64Url(toBase64Url(B))\<close> are \<open>B\<close>, and the string \<^verbatim>\<open>fromBase64Url\<close>
  rebuilds from the length modulo 4 of its input and hands to \<^verbatim>\<open>fromBase64\<close> is
  exactly \<^verbatim>\<open>toBase64(B)\<close>.
\<close>

theorem base64_round_trip:
  "\<exists>s u. toBase64 B = Inr s \<and> fromBase64 s = Inr B \<and>
     toBase64Url B = Inr u \<and> padded u = s \<and> fromBase64Url u = Inr B"
proof (intro exI conjI)
  show "toBase64 B = Inr (b64_encode (map unat B))"
    by (rule toBase64_eq)
  show "fromBase64 (b64_encode (map unat B)) = Inr B"
    by (rule fromBase64_b64_encode)
  show "toBase64Url B = Inr (map (\<lambda>ch. if ch = 43 then 45 else if ch = 47 then 95 else ch)
     (map (\<lambda>v. b64_alphabet ! v) (sextets (map unat B))))"
    by (rule toBase64Url_eq)
  show "padded (map (\<lambda>ch. if ch = 43 then 45 else if ch = 47 then 95 else ch)
     (map (\<lambda>v. b64_alphabet ! v) (sextets (map unat B)))) = b64_encode (map unat B)"
    by (rule padded_toBase64Url)
  then show "fromBase64Url (map (\<lambda>ch. if ch = 43 then 45 else if ch = 47 then 95 else ch)
     (map (\<lambda>v. b64_alphabet ! v) (sextets (map unat B)))) = Inr B"
    unfolding fromBase64Url_def by (simp only: fromBase64_b64_encode)
qed


section \<open>Base64 literals\<close>

text \<open>
  C8. \<^verbatim>\<open>toBase64\<close> of the bytes \<open>[1]\<close>, \<open>[1, 2]\<close> and \<open>[1, 2, 3]\<close> is \<^verbatim>\<open>"AQ=="\<close>,
  \<^verbatim>\<open>"AQI="\<close> and \<^verbatim>\<open>"AQID"\<close>: the RFC 4648 encodings with \<^verbatim>\<open>=\<close> padding.
\<close>

theorem toBase64_padding_literals:
  "toBase64 [1] = Inr (utf16 ''AQ=='') \<and>
   toBase64 [1, 2] = Inr (utf16 ''AQI='') \<and>
   toBase64 [1, 2, 3] = Inr (utf16 ''AQID'')"
  by code_simp

section \<open>\<^verbatim>\<open>aes-gcm.ts\<close>: round trip and key admission\<close>

lemma bytes_at_append_old: "r < length h \<Longrightarrow> bytes_at (h @ [bs]) r = bytes_at h r"
  by (simp add: bytes_at_def nth_append)

lemma bytes_at_append_new: "bytes_at (h @ [bs]) (length h) = bs"
  by (simp add: bytes_at_def)

lemma fixture_aead_correct: "aead_correct (getCrypto fixture_env)"
  by (auto simp: aead_correct_def getCrypto_def fixture_env_def fixture_crypto_def Let_def
      comp_def)

lemma fixture_imports_aes256: "imports_aes256 (getCrypto fixture_env)"
  by (simp add: imports_aes256_def getCrypto_def fixture_env_def fixture_crypto_def)

text \<open>
  C1. With a provider whose AES-GCM is correct, for every key, every plaintext and every
  choice of aad and tagLength: when \<^verbatim>\<open>encrypt\<close> with the caller's iv \<open>i\<close> returns a
  result, \<^verbatim>\<open>decrypt\<close> of its ciphertext with the same key, iv, aad and tagLength returns
  an array holding exactly the plaintext bytes. (\<^verbatim>\<open>encrypt\<close> returns a result only for a
  12-byte iv.)
\<close>

theorem encrypt_decrypt_round_trip:
  assumes correct: "aead_correct (getCrypto e)"
    and refs: "plaintext < length (store w)" "i < length (store w)"
      "case o_aad opts of None \<Rightarrow> True | Some a \<Rightarrow> a < length (store w)"
    and iv: "o_iv opts = Some i"
    and enc: "encrypt e w key plaintext opts = (Inr r, w')"
    and same: "o_aad opts' = o_aad opts" "o_tagLength opts' = o_tagLength opts"
  shows "\<exists>pt w''. decrypt e w' key i (r_ciphertext r) opts' = (Inr pt, w'') \<and>
           bytes_at (store w'') pt = bytes_at (store w) plaintext"
proof -
  let ?params = "\<lparr>p_name = ''AES-GCM'', p_iv = bytes_at (store w) i,
      p_additionalData = map_option (bytes_at (store w)) (o_aad opts),
      p_tagLength = (case o_tagLength opts of Some t \<Rightarrow> t | None \<Rightarrow> DEFAULT_TAG_BITS)\<rparr>"
  let ?data = "bytes_at (store w) plaintext"
  from enc iv have len: "length (bytes_at (store w) i) = DEFAULT_IV_BYTES"
    by (auto simp: encrypt_def Let_def split: if_splits)
  from enc iv len obtain bs where
    prov: "subtle_encrypt (getCrypto e) ?params key ?data = Inr bs"
    and w': "store w' = store w @ [bs]"
    and r: "r_ciphertext r = length (store w)"
    by (auto simp: encrypt_def Let_def alloc_def split: sum.splits)
  have dec: "subtle_decrypt (getCrypto e) ?params key bs = Inr ?data"
    using correct prov unfolding aead_correct_def by blast
  have iv': "bytes_at (store w') i = bytes_at (store w) i"
    using refs(2) w' by (simp add: bytes_at_append_old)
  have aad': "map_option (bytes_at (store w')) (o_aad opts') =
      map_option (bytes_at (store w)) (o_aad opts)"
    using refs(3) w' same(1) by (cases "o_aad opts") (simp_all add: bytes_at_append_old)
  have ct: "bytes_at (store w') (r_ciphertext r) = bs"
    using w' r by (simp add: bytes_at_append_new)
  show ?thesis
    using len dec iv' aad' ct same(2)
    by (simp add: decrypt_def Let_def alloc_def bytes_at_append_new)
qed

lemmas fixture_defs =
  fixture_env_def fixture_crypto_def fixture_world_def fixture_opts_def fixture_key_def
  fixture_tag_def legal_tag_def getCrypto_def bytes_at_def alloc_def Let_def
  DEFAULT_IV_BYTES_def DEFAULT_TAG_BITS_def

lemma fixture_encrypt:
  "fst (encrypt fixture_env fixture_world fixture_key 1 fixture_opts) =
     Inr \<lparr>r_iv = 0, r_ciphertext = 5\<rparr>"
  by (simp add: encrypt_def fixture_defs)

theorem encrypt_decrypt_round_trip_witness:
  "\<exists>pt w''.
     decrypt fixture_env (snd (encrypt fixture_env fixture_world fixture_key 1 fixture_opts))
       fixture_key 0 5 fixture_opts = (Inr pt, w'') \<and>
     bytes_at (store w'') pt = [104, 105, 33]"
proof -
  have enc: "encrypt fixture_env fixture_world fixture_key 1 fixture_opts =
      (Inr \<lparr>r_iv = 0, r_ciphertext = 5\<rparr>,
       snd (encrypt fixture_env fixture_world fixture_key 1 fixture_opts))"
    using fixture_encrypt by (simp add: prod_eq_iff)
  have "1 < length (store fixture_world)" "0 < length (store fixture_world)"
    "case o_aad fixture_opts of None \<Rightarrow> True | Some a \<Rightarrow> a < length (store fixture_world)"
    "o_iv fixture_opts = Some 0"
    by (simp_all add: fixture_world_def fixture_opts_def)
  from encrypt_decrypt_round_trip [OF fixture_aead_correct this enc refl refl]
  show ?thesis by (simp add: fixture_world_def bytes_at_def)
qed

lemma length_random_bytes: "length (fst (random_bytes g n s)) = n"
proof (induction n arbitrary: s)
  case 0
  then show ?case by simp
next
  case (Suc n)
  obtain b s1 where g: "g s = (b, s1)" by (cases "g s")
  obtain bs s2 where r: "random_bytes g n s1 = (bs, s2)" by (cases "random_bytes g n s1")
  from Suc [of s1] r have "length bs = n" by simp
  with g r show ?case by simp
qed

lemma raise_dom_not_local:
  "raise_dom x \<noteq> Inl InvalidKeyLength" "raise_dom x \<noteq> Inl InvalidIvLength"
  "raise_dom x \<noteq> Inl InvalidInputType"
  by (cases x; simp)+

text \<open>
  C5. \<^verbatim>\<open>importKey\<close> fails with InvalidKeyLength exactly when the raw key is not 32 bytes
  long; on that path nothing changes, so the provider is not called. For 32 bytes the
  provider's \<^verbatim>\<open>importKey\<close> is called once, with a copy of the bytes, and with a provider
  that accepts raw 32-byte AES-GCM keys the result is a key.
\<close>

theorem importKey_key_length:
  "(fst (importKey e w rawKey) = Inl InvalidKeyLength \<longleftrightarrow>
      length (bytes_at (store w) rawKey) \<noteq> 32) \<and>
   (length (bytes_at (store w) rawKey) \<noteq> 32 \<longrightarrow> snd (importKey e w rawKey) = w) \<and>
   (length (bytes_at (store w) rawKey) = 32 \<longrightarrow>
      calls (snd (importKey e w rawKey)) =
        calls w @ [ImportKey \<lparr>format = ''raw'', keyData = bytes_at (store w) rawKey,
          algorithm = ''AES-GCM'', extractable = True, keyUsages = [''encrypt'', ''decrypt'']\<rparr>]) \<and>
   (length (bytes_at (store w) rawKey) = 32 \<and> imports_aes256 (getCrypto e) \<longrightarrow>
      (\<exists>k. fst (importKey e w rawKey) = Inr k))"
proof (intro conjI impI)
  show "fst (importKey e w rawKey) = Inl InvalidKeyLength \<longleftrightarrow>
      length (bytes_at (store w) rawKey) \<noteq> 32"
    by (simp add: importKey_def Let_def alloc_def raise_dom_not_local)
  show "snd (importKey e w rawKey) = w" if "length (bytes_at (store w) rawKey) \<noteq> 32"
    using that by (simp add: importKey_def)
  show "calls (snd (importKey e w rawKey)) =
        calls w @ [ImportKey \<lparr>format = ''raw'', keyData = bytes_at (store w) rawKey,
          algorithm = ''AES-GCM'', extractable = True, keyUsages = [''encrypt'', ''decrypt'']\<rparr>]"
    if "length (bytes_at (store w) rawKey) = 32"
    using that by (simp add: importKey_def Let_def alloc_def bytes_at_append_new)
  show "\<exists>k. fst (importKey e w rawKey) = Inr k"
    if "length (bytes_at (store w) rawKey) = 32 \<and> imports_aes256 (getCrypto e)"
  proof -
    from that obtain k where "subtle_importKey (getCrypto e)
        \<lparr>format = ''raw'', keyData = bytes_at (store w) rawKey, algorithm = ''AES-GCM'',
         extractable = True, keyUsages = [''encrypt'', ''decrypt'']\<rparr> = Inr k"
      unfolding imports_aes256_def by blast
    with that show ?thesis
      by (simp add: importKey_def Let_def alloc_def bytes_at_append_new)
  qed
qed

theorem importKey_key_length_witness:
  "fst (importKey fixture_env fixture_world 1) = Inl InvalidKeyLength \<and>
   snd (importKey fixture_env fixture_world 1) = fixture_world \<and>
   (\<exists>k. fst (importKey fixture_env fixture_world 3) = Inr k)"
proof -
  have "length (bytes_at (store fixture_world) 1) \<noteq> 32"
    "length (bytes_at (store fixture_world) 3) = 32"
    by (simp_all add: fixture_world_def bytes_at_def)
  with importKey_key_length [of fixture_env fixture_world 1]
    importKey_key_length [of fixture_env fixture_world 3] fixture_imports_aes256
  show ?thesis by simp
qed


section \<open>\<^verbatim>\<open>aes-gcm.ts\<close>: the iv and the tag length\<close>

lemma randomIv_result:
  "randomIv e w =
     (length (store w),
      w\<lparr>store := store w @ [fst (random_bytes (getRandomByte (getCrypto e)) 12 (entropy w))],
        entropy := snd (random_bytes (getRandomByte (getCrypto e)) 12 (entropy w)),
        calls := calls w @ [GetRandomValues 12]\<rparr>)"
  by (simp add: randomIv_def getRandomValues_def alloc_def bytes_at_def DEFAULT_IV_BYTES_def
      Let_def split: prod.splits)

lemma encrypt_InvalidIvLength_explicit:
  "o_iv opts = Some i \<Longrightarrow>
   fst (encrypt e w key plaintext opts) = Inl InvalidIvLength \<longleftrightarrow>
     length (bytes_at (store w) i) \<noteq> 12"
  by (simp add: encrypt_def Let_def alloc_def DEFAULT_IV_BYTES_def split: sum.splits)

lemma decrypt_InvalidIvLength:
  "fst (decrypt e w key i ciphertext opts) = Inl InvalidIvLength \<longleftrightarrow>
     length (bytes_at (store w) i) \<noteq> 12"
  by (simp add: decrypt_def Let_def alloc_def DEFAULT_IV_BYTES_def split: sum.splits)

lemma encrypt_generated_iv:
  assumes "o_iv opts = None"
  shows "fst (encrypt e w key plaintext opts) \<noteq> Inl InvalidIvLength"
    and "encrypt e w key plaintext opts = (Inr r, w') \<Longrightarrow>
      r_iv r = length (store w) \<and>
      bytes_at (store w') (r_iv r) =
        fst (random_bytes (getRandomByte (getCrypto e)) 12 (entropy w))"
  using assms
  by (auto simp: encrypt_def randomIv_result Let_def alloc_def DEFAULT_IV_BYTES_def
      bytes_at_def nth_append length_random_bytes split: sum.splits)

lemma encrypt_forwards_generated:
  assumes "o_iv opts = None"
  shows "calls (snd (encrypt e w key plaintext opts)) =
      calls (snd (randomIv e w)) @
        [Encrypt (forwarded_params (store (snd (randomIv e w))) (fst (randomIv e w)) opts) key
           (bytes_at (store (snd (randomIv e w))) plaintext)]"
    and "fst (encrypt e w key plaintext opts) =
      (case subtle_encrypt (getCrypto e)
              (forwarded_params (store (snd (randomIv e w))) (fst (randomIv e w)) opts) key
              (bytes_at (store (snd (randomIv e w))) plaintext) of
         Inl ex \<Rightarrow> Inl (DOMException ex)
       | Inr bs \<Rightarrow>
           Inr \<lparr>r_iv = fst (randomIv e w), r_ciphertext = length (store (snd (randomIv e w)))\<rparr>)"
  using assms
  by (auto simp: encrypt_def randomIv_result forwarded_params_def Let_def alloc_def
      DEFAULT_IV_BYTES_def DEFAULT_TAG_BITS_def bytes_at_append_new length_random_bytes
      split: sum.splits option.splits)

lemma encrypt_generated_world:
  assumes "o_iv opts = None"
  shows "bytes_at (store (snd (encrypt e w key plaintext opts))) (length (store w)) =
      fst (random_bytes (getRandomByte (getCrypto e)) 12 (entropy w))"
    and "entropy (snd (encrypt e w key plaintext opts)) =
      snd (random_bytes (getRandomByte (getCrypto e)) 12 (entropy w))"
  using assms
  by (auto simp: encrypt_def randomIv_result Let_def alloc_def DEFAULT_IV_BYTES_def
      bytes_at_def nth_append length_random_bytes split: sum.splits)

text \<open>
  C3. With a caller-supplied iv, \<^verbatim>\<open>encrypt\<close> fails with InvalidIvLength exactly when the
  iv is not 12 bytes long, and so does \<^verbatim>\<open>decrypt\<close>. With the iv omitted, \<^verbatim>\<open>encrypt\<close>
  creates a new 12-byte array and has the provider's random source fill it: the call log
  grows by one \<^verbatim>\<open>getRandomValues\<close> call of 12 bytes followed by the provider's
  \<^verbatim>\<open>encrypt\<close> call, whose \<^verbatim>\<open>iv\<close> parameter is those 12 bytes; the array holds them
  after the call and the random source has advanced. \<^verbatim>\<open>encrypt\<close> then never fails with
  InvalidIvLength: it fails with the provider's exception when the provider rejects, and
  otherwise returns the result whose \<^verbatim>\<open>iv\<close> is that array.
\<close>

theorem iv_length_validation:
  "(o_iv opts = Some i \<longrightarrow>
      (fst (encrypt e w key plaintext opts) = Inl InvalidIvLength \<longleftrightarrow>
         length (bytes_at (store w) i) \<noteq> 12)) \<and>
   (fst (decrypt e w key i ciphertext opts) = Inl InvalidIvLength \<longleftrightarrow>
      length (bytes_at (store w) i) \<noteq> 12) \<and>
   (o_iv opts = None \<longrightarrow>
      fst (randomIv e w) = length (store w) \<and>
      length (bytes_at (store (snd (randomIv e w))) (fst (randomIv e w))) = 12 \<and>
      bytes_at (store (snd (randomIv e w))) (fst (randomIv e w)) =
        fst (random_bytes (getRandomByte (getCrypto e)) 12 (entropy w)) \<and>
      calls (snd (randomIv e w)) = calls w @ [GetRandomValues 12] \<and>
      fst (encrypt e w key plaintext opts) \<noteq> Inl InvalidIvLength \<and>
      (\<forall>r w'. encrypt e w key plaintext opts = (Inr r, w') \<longrightarrow>
         r_iv r = fst (randomIv e w) \<and>
         bytes_at (store w') (r_iv r) =
           fst (random_bytes (getRandomByte (getCrypto e)) 12 (entropy w))) \<and>
      calls (snd (encrypt e w key plaintext opts)) =
        calls w @
          [GetRandomValues 12,
           Encrypt (forwarded_params (store (snd (randomIv e w))) (fst (randomIv e w)) opts) key
             (bytes_at (store (snd (randomIv e w))) plaintext)] \<and>
      p_iv (forwarded_params (store (snd (randomIv e w))) (fst (randomIv e w)) opts) =
        fst (random_bytes (getRandomByte (getCrypto e)) 12 (entropy w)) \<and>
      bytes_at (store (snd (encrypt e w key plaintext opts))) (length (store w)) =
        fst (random_bytes (getRandomByte (getCrypto e)) 12 (entropy w)) \<and>
      entropy (snd (encrypt e w key plaintext opts)) =
        snd (random_bytes (getRandomByte (getCrypto e)) 12 (entropy w)) \<and>
      fst (encrypt e w key plaintext opts) =
        (case subtle_encrypt (getCrypto e)
                (forwarded_params (store (snd (randomIv e w))) (fst (randomIv e w)) opts) key
                (bytes_at (store (snd (randomIv e w))) plaintext) of
           Inl ex \<Rightarrow> Inl (DOMException ex)
         | Inr bs \<Rightarrow>
             Inr \<lparr>r_iv = fst (randomIv e w),
                  r_ciphertext = length (store (snd (randomIv e w)))\<rparr>))"
proof (intro conjI impI allI)
  show "fst (encrypt e w key plaintext opts) = Inl InvalidIvLength \<longleftrightarrow>
      length (bytes_at (store w) i) \<noteq> 12" if "o_iv opts = Some i"
    using that by (rule encrypt_InvalidIvLength_explicit)
  show "fst (decrypt e w key i ciphertext opts) = Inl InvalidIvLength \<longleftrightarrow>
      length (bytes_at (store w) i) \<noteq> 12"
    by (rule decrypt_InvalidIvLength)
  show "fst (randomIv e w) = length (store w)"
    by (simp add: randomIv_result)
  show "length (bytes_at (store (snd (randomIv e w))) (fst (randomIv e w))) = 12"
    by (simp add: randomIv_result bytes_at_append_new length_random_bytes)
  show "bytes_at (store (snd (randomIv e w))) (fst (randomIv e w)) =
        fst (random_bytes (getRandomByte (getCrypto e)) 12 (entropy w))"
    by (simp add: randomIv_result bytes_at_append_new)
  show "calls (snd (randomIv e w)) = calls w @ [GetRandomValues 12]"
    by (simp add: randomIv_result)
  show "fst (encrypt e w key plaintext opts) \<noteq> Inl InvalidIvLength" if "o_iv opts = None"
    using that by (rule encrypt_generated_iv(1))
  show "r_iv r = fst (randomIv e w)"
    if "o_iv opts = None" "encrypt e w key plaintext opts = (Inr r, w')" for r w'
    using encrypt_generated_iv(2) [OF that] by (simp add: randomIv_result)
  show "bytes_at (store w') (r_iv r) =
           fst (random_bytes (getRandomByte (getCrypto e)) 12 (entropy w))"
    if "o_iv opts = None" "encrypt e w key plaintext opts = (Inr r, w')" for r w'
    using encrypt_generated_iv(2) [OF that] by (rule conjunct2)
  show "calls (snd (encrypt e w key plaintext opts)) =
        calls w @
          [GetRandomValues 12,
           Encrypt (forwarded_params (store (snd (randomIv e w))) (fst (randomIv e w)) opts) key
             (bytes_at (store (snd (randomIv e w))) plaintext)]" if "o_iv opts = None"
    using encrypt_forwards_generated(1) [OF that, of e w key plaintext]
    by (simp add: randomIv_result)
  show "p_iv (forwarded_params (store (snd (randomIv e w))) (fst (randomIv e w)) opts) =
        fst (random_bytes (getRandomByte (getCrypto e)) 12 (entropy w))"
    by (simp add: forwarded_params_def randomIv_result bytes_at_append_new)
  show "bytes_at (store (snd (encrypt e w key plaintext opts))) (length (store w)) =
        fst (random_bytes (getRandomByte (getCrypto e)) 12 (entropy w))" if "o_iv opts = None"
    using that by (rule encrypt_generated_world(1))
  show "entropy (snd (encrypt e w key plaintext opts)) =
        snd (random_bytes (getRandomByte (getCrypto e)) 12 (entropy w))" if "o_iv opts = None"
    using that by (rule encrypt_generated_world(2))
  show "fst (encrypt e w key plaintext opts) =
        (case subtle_encrypt (getCrypto e)
                (forwarded_params (store (snd (randomIv e w))) (fst (randomIv e w)) opts) key
                (bytes_at (store (snd (randomIv e w))) plaintext) of
           Inl ex \<Rightarrow> Inl (DOMException ex)
         | Inr bs \<Rightarrow>
             Inr \<lparr>r_iv = fst (randomIv e w),
                  r_ciphertext = length (store (snd (randomIv e w)))\<rparr>)"
    if "o_iv opts = None"
    using that by (rule encrypt_forwards_generated(2))
qed

theorem iv_length_validation_witness:
  "fst (encrypt fixture_env fixture_world fixture_key 1 (fixture_opts\<lparr>o_iv := Some 4\<rparr>)) =
     Inl InvalidIvLength \<and>
   fst (encrypt fixture_env fixture_world fixture_key 1 fixture_opts) \<noteq> Inl InvalidIvLength \<and>
   fst (decrypt fixture_env fixture_world fixture_key 4 1 fixture_opts) = Inl InvalidIvLength \<and>
   fst (decrypt fixture_env fixture_world fixture_key 0 1 fixture_opts) \<noteq> Inl InvalidIvLength \<and>
   length (bytes_at (store (snd (randomIv fixture_env fixture_world)))
     (fst (randomIv fixture_env fixture_world))) = 12 \<and>
   fst (encrypt fixture_env fixture_world fixture_key 1 (fixture_opts\<lparr>o_iv := None\<rparr>)) =
     Inr \<lparr>r_iv = 5, r_ciphertext = 6\<rparr> \<and>
   bytes_at (store (snd (encrypt fixture_env fixture_world fixture_key 1
       (fixture_opts\<lparr>o_iv := None\<rparr>)))) 5 =
     [0, 1, 2, 3, 4, 5, 6, 7, 8, 9, 10, 11] \<and>
   calls (snd (encrypt fixture_env fixture_world fixture_key 1
       (fixture_opts\<lparr>o_iv := None\<rparr>))) =
     [GetRandomValues 12,
      Encrypt \<lparr>p_name = ''AES-GCM'', p_iv = [0, 1, 2, 3, 4, 5, 6, 7, 8, 9, 10, 11],
         p_additionalData = Some [1, 2], p_tagLength = 96\<rparr> fixture_key [104, 105, 33]]"
proof -
  let ?none = "fixture_opts\<lparr>o_iv := None\<rparr>"
  let ?n = "fst (randomIv fixture_env fixture_world)"
  let ?h = "store (snd (randomIv fixture_env fixture_world))"
  let ?rb = "fst (random_bytes (getRandomByte (getCrypto fixture_env)) 12 (entropy fixture_world))"
  have len: "length (bytes_at (store fixture_world) 4) \<noteq> 12"
    "\<not> length (bytes_at (store fixture_world) 0) \<noteq> 12"
    by (simp_all add: fixture_world_def bytes_at_def)
  have iv: "o_iv (fixture_opts\<lparr>o_iv := Some 4\<rparr>) = Some 4" "o_iv fixture_opts = Some 0"
    "o_iv ?none = None"
    by (simp_all add: fixture_opts_def)
  note short = iv_length_validation [where opts = "fixture_opts\<lparr>o_iv := Some 4\<rparr>" and i = 4
      and e = fixture_env and w = fixture_world and key = fixture_key and plaintext = 1
      and ciphertext = 1]
  note right = iv_length_validation [where opts = fixture_opts and i = 0
      and e = fixture_env and w = fixture_world and key = fixture_key and plaintext = 1
      and ciphertext = 1]
  note wrong = iv_length_validation [where opts = fixture_opts and i = 4
      and e = fixture_env and w = fixture_world and key = fixture_key and plaintext = 1
      and ciphertext = 1]
  note omitted = iv_length_validation [where opts = ?none and i = 4
      and e = fixture_env and w = fixture_world and key = fixture_key and plaintext = 1
      and ciphertext = 1]
  have rb: "?rb = [0, 1, 2, 3, 4, 5, 6, 7, 8, 9, 10, 11]"
    by code_simp
  have five: "length (store fixture_world) = 5" and none: "calls fixture_world = []"
    by (simp_all add: fixture_world_def)
  from omitted iv(3) have "?n = length (store fixture_world)"
    by blast
  then have n: "?n = 5"
    unfolding five .
  have h: "?h = store fixture_world @ [[0, 1, 2, 3, 4, 5, 6, 7, 8, 9, 10, 11]]"
    by (simp add: randomIv_result rb)
  have params: "forwarded_params ?h 5 ?none =
      \<lparr>p_name = ''AES-GCM'', p_iv = [0, 1, 2, 3, 4, 5, 6, 7, 8, 9, 10, 11],
       p_additionalData = Some [1, 2], p_tagLength = 96\<rparr>"
    unfolding h
    by (simp add: forwarded_params_def fixture_opts_def fixture_world_def bytes_at_def)
  have data: "bytes_at ?h 1 = [104, 105, 33]" and six: "length ?h = 6"
    unfolding h by (simp_all add: fixture_world_def bytes_at_def)
  obtain bs where provider: "subtle_encrypt (getCrypto fixture_env)
      \<lparr>p_name = ''AES-GCM'', p_iv = [0, 1, 2, 3, 4, 5, 6, 7, 8, 9, 10, 11],
       p_additionalData = Some [1, 2], p_tagLength = 96\<rparr> fixture_key [104, 105, 33] = Inr bs"
    by (simp add: getCrypto_def fixture_env_def fixture_crypto_def legal_tag_def)
  have "fst (encrypt fixture_env fixture_world fixture_key 1 (fixture_opts\<lparr>o_iv := Some 4\<rparr>)) =
     Inl InvalidIvLength"
    using short iv(1) len(1) by blast
  moreover have "fst (encrypt fixture_env fixture_world fixture_key 1 fixture_opts) \<noteq>
     Inl InvalidIvLength"
    using right iv(2) len(2) by blast
  moreover have "fst (decrypt fixture_env fixture_world fixture_key 4 1 fixture_opts) =
     Inl InvalidIvLength"
    using wrong len(1) by blast
  moreover have "fst (decrypt fixture_env fixture_world fixture_key 0 1 fixture_opts) \<noteq>
     Inl InvalidIvLength"
    using right len(2) by blast
  moreover have "length (bytes_at ?h ?n) = 12"
    using omitted iv(3) by blast
  moreover have "fst (encrypt fixture_env fixture_world fixture_key 1 ?none) =
     Inr \<lparr>r_iv = 5, r_ciphertext = 6\<rparr>"
  proof -
    from omitted iv(3) have "fst (encrypt fixture_env fixture_world fixture_key 1 ?none) =
        (case subtle_encrypt (getCrypto fixture_env) (forwarded_params ?h ?n ?none) fixture_key
                (bytes_at ?h 1) of
           Inl ex \<Rightarrow> Inl (DOMException ex)
         | Inr bs \<Rightarrow> Inr \<lparr>r_iv = ?n, r_ciphertext = length ?h\<rparr>)"
      by blast
    then show ?thesis
      unfolding n params data provider six by simp
  qed
  moreover have "bytes_at (store (snd (encrypt fixture_env fixture_world fixture_key 1 ?none))) 5 =
     [0, 1, 2, 3, 4, 5, 6, 7, 8, 9, 10, 11]"
  proof -
    from omitted iv(3) have "bytes_at (store (snd (encrypt fixture_env fixture_world fixture_key 1
        ?none))) (length (store fixture_world)) = ?rb"
      by blast
    then show ?thesis
      unfolding rb five .
  qed
  moreover have "calls (snd (encrypt fixture_env fixture_world fixture_key 1 ?none)) =
     [GetRandomValues 12,
      Encrypt \<lparr>p_name = ''AES-GCM'', p_iv = [0, 1, 2, 3, 4, 5, 6, 7, 8, 9, 10, 11],
         p_additionalData = Some [1, 2], p_tagLength = 96\<rparr> fixture_key [104, 105, 33]]"
  proof -
    from omitted iv(3) have "calls (snd (encrypt fixture_env fixture_world fixture_key 1 ?none)) =
        calls fixture_world @
          [GetRandomValues 12, Encrypt (forwarded_params ?h ?n ?none) fixture_key (bytes_at ?h 1)]"
      by blast
    then show ?thesis
      unfolding n params data none by simp
  qed
  ultimately show ?thesis by blast
qed

lemma encrypt_local_error:
  "local_error (fst (encrypt e w key plaintext opts)) \<longleftrightarrow>
     fst (encrypt e w key plaintext opts) = Inl InvalidIvLength"
  by (auto simp: local_error_def encrypt_def Let_def alloc_def split: sum.splits prod.splits
      option.splits if_splits)

lemma decrypt_local_error:
  "local_error (fst (decrypt e w key i ciphertext opts)) \<longleftrightarrow>
     fst (decrypt e w key i ciphertext opts) = Inl InvalidIvLength"
  by (auto simp: local_error_def decrypt_def Let_def alloc_def split: sum.splits prod.splits
      option.splits if_splits)

lemma encrypt_InvalidIvLength_tagLength:
  "fst (encrypt e w key plaintext (opts\<lparr>o_tagLength := t\<rparr>)) = Inl InvalidIvLength \<longleftrightarrow>
   fst (encrypt e w key plaintext opts) = Inl InvalidIvLength"
proof (cases "o_iv opts")
  case None
  then have "o_iv (opts\<lparr>o_tagLength := t\<rparr>) = None" by simp
  then have "fst (encrypt e w key plaintext (opts\<lparr>o_tagLength := t\<rparr>)) \<noteq> Inl InvalidIvLength"
    by (rule encrypt_generated_iv(1))
  moreover have "fst (encrypt e w key plaintext opts) \<noteq> Inl InvalidIvLength"
    using None by (rule encrypt_generated_iv(1))
  ultimately show ?thesis by simp
next
  case (Some i)
  then have "o_iv (opts\<lparr>o_tagLength := t\<rparr>) = Some i" by simp
  then have "fst (encrypt e w key plaintext (opts\<lparr>o_tagLength := t\<rparr>)) = Inl InvalidIvLength \<longleftrightarrow>
      length (bytes_at (store w) i) \<noteq> 12"
    by (rule encrypt_InvalidIvLength_explicit)
  moreover have "fst (encrypt e w key plaintext opts) = Inl InvalidIvLength \<longleftrightarrow>
      length (bytes_at (store w) i) \<noteq> 12"
    using Some by (rule encrypt_InvalidIvLength_explicit)
  ultimately show ?thesis by simp
qed

lemma decrypt_InvalidIvLength_tagLength:
  "fst (decrypt e w key i ciphertext (opts\<lparr>o_tagLength := t\<rparr>)) = Inl InvalidIvLength \<longleftrightarrow>
   fst (decrypt e w key i ciphertext opts) = Inl InvalidIvLength"
  by (simp only: decrypt_InvalidIvLength)

lemma encrypt_forwards:
  assumes "o_iv opts = Some i" "length (bytes_at (store w) i) = 12"
  shows "calls (snd (encrypt e w key plaintext opts)) =
      calls w @ [Encrypt (forwarded_params (store w) i opts) key (bytes_at (store w) plaintext)]"
    and "fst (encrypt e w key plaintext opts) =
      (case subtle_encrypt (getCrypto e) (forwarded_params (store w) i opts) key
              (bytes_at (store w) plaintext) of
         Inl ex \<Rightarrow> Inl (DOMException ex)
       | Inr bs \<Rightarrow> Inr \<lparr>r_iv = i, r_ciphertext = length (store w)\<rparr>)"
  using assms
  by (auto simp: encrypt_def forwarded_params_def Let_def alloc_def DEFAULT_IV_BYTES_def
      DEFAULT_TAG_BITS_def split: sum.splits option.splits)

lemma decrypt_forwards:
  assumes "length (bytes_at (store w) i) = 12"
  shows "calls (snd (decrypt e w key i ciphertext opts)) =
      calls w @ [Decrypt (forwarded_params (store w) i opts) key (bytes_at (store w) ciphertext)]"
    and "fst (decrypt e w key i ciphertext opts) =
      (case subtle_decrypt (getCrypto e) (forwarded_params (store w) i opts) key
              (bytes_at (store w) ciphertext) of
         Inl ex \<Rightarrow> Inl (DOMException ex)
       | Inr bs \<Rightarrow> Inr (length (store w)))"
  using assms
  by (auto simp: decrypt_def forwarded_params_def Let_def alloc_def DEFAULT_IV_BYTES_def
      DEFAULT_TAG_BITS_def split: sum.splits option.splits)

text \<open>
  C4. For every value of tagLength, legal or not: whether \<^verbatim>\<open>encrypt\<close> or \<^verbatim>\<open>decrypt\<close>
  raises one of the library's own errors does not depend on it; once the iv has 12 bytes
  the provider is called with parameters whose \<^verbatim>\<open>tagLength\<close> is the option's value,
  or 128 when absent; and the outcome is then the provider's: its \<^verbatim>\<open>DOMException\<close>, or
  a result.
\<close>

theorem tagLength_not_validated:
  "(local_error (fst (encrypt e w key plaintext (opts\<lparr>o_tagLength := t\<rparr>))) \<longleftrightarrow>
      local_error (fst (encrypt e w key plaintext opts))) \<and>
   (local_error (fst (decrypt e w key i ciphertext (opts\<lparr>o_tagLength := t\<rparr>))) \<longleftrightarrow>
      local_error (fst (decrypt e w key i ciphertext opts))) \<and>
   p_tagLength (forwarded_params h i opts) =
      (case o_tagLength opts of None \<Rightarrow> 128 | Some t \<Rightarrow> t) \<and>
   (o_iv opts = Some i \<and> length (bytes_at (store w) i) = 12 \<longrightarrow>
      calls (snd (encrypt e w key plaintext opts)) =
        calls w @ [Encrypt (forwarded_params (store w) i opts) key (bytes_at (store w) plaintext)] \<and>
      fst (encrypt e w key plaintext opts) =
        (case subtle_encrypt (getCrypto e) (forwarded_params (store w) i opts) key
                (bytes_at (store w) plaintext) of
           Inl ex \<Rightarrow> Inl (DOMException ex)
         | Inr bs \<Rightarrow> Inr \<lparr>r_iv = i, r_ciphertext = length (store w)\<rparr>)) \<and>
   (o_iv opts = None \<longrightarrow>
      calls (snd (encrypt e w key plaintext opts)) =
        calls (snd (randomIv e w)) @
          [Encrypt (forwarded_params (store (snd (randomIv e w))) (fst (randomIv e w)) opts) key
             (bytes_at (store (snd (randomIv e w))) plaintext)] \<and>
      fst (encrypt e w key plaintext opts) =
        (case subtle_encrypt (getCrypto e)
                (forwarded_params (store (snd (randomIv e w))) (fst (randomIv e w)) opts) key
                (bytes_at (store (snd (randomIv e w))) plaintext) of
           Inl ex \<Rightarrow> Inl (DOMException ex)
         | Inr bs \<Rightarrow>
             Inr \<lparr>r_iv = fst (randomIv e w),
                  r_ciphertext = length (store (snd (randomIv e w)))\<rparr>)) \<and>
   (length (bytes_at (store w) i) = 12 \<longrightarrow>
      calls (snd (decrypt e w key i ciphertext opts)) =
        calls w @ [Decrypt (forwarded_params (store w) i opts) key (bytes_at (store w) ciphertext)] \<and>
      fst (decrypt e w key i ciphertext opts) =
        (case subtle_decrypt (getCrypto e) (forwarded_params (store w) i opts) key
                (bytes_at (store w) ciphertext) of
           Inl ex \<Rightarrow> Inl (DOMException ex)
         | Inr bs \<Rightarrow> Inr (length (store w))))"
proof (intro conjI impI)
  show "local_error (fst (encrypt e w key plaintext (opts\<lparr>o_tagLength := t\<rparr>))) \<longleftrightarrow>
      local_error (fst (encrypt e w key plaintext opts))"
    by (simp only: encrypt_local_error encrypt_InvalidIvLength_tagLength)
  show "local_error (fst (decrypt e w key i ciphertext (opts\<lparr>o_tagLength := t\<rparr>))) \<longleftrightarrow>
      local_error (fst (decrypt e w key i ciphertext opts))"
    by (simp only: decrypt_local_error decrypt_InvalidIvLength_tagLength)
  show "p_tagLength (forwarded_params h i opts) =
      (case o_tagLength opts of None \<Rightarrow> 128 | Some t \<Rightarrow> t)"
    by (simp add: forwarded_params_def)
next
  assume a: "o_iv opts = Some i \<and> length (bytes_at (store w) i) = 12"
  then have a1: "o_iv opts = Some i" and a2: "length (bytes_at (store w) i) = 12"
    by simp_all
  show "calls (snd (encrypt e w key plaintext opts)) =
        calls w @ [Encrypt (forwarded_params (store w) i opts) key (bytes_at (store w) plaintext)]"
    by (rule encrypt_forwards(1) [OF a1 a2])
  show "fst (encrypt e w key plaintext opts) =
        (case subtle_encrypt (getCrypto e) (forwarded_params (store w) i opts) key
                (bytes_at (store w) plaintext) of
           Inl ex \<Rightarrow> Inl (DOMException ex)
         | Inr bs \<Rightarrow> Inr \<lparr>r_iv = i, r_ciphertext = length (store w)\<rparr>)"
    by (rule encrypt_forwards(2) [OF a1 a2])
next
  assume a: "o_iv opts = None"
  then show "calls (snd (encrypt e w key plaintext opts)) =
        calls (snd (randomIv e w)) @
          [Encrypt (forwarded_params (store (snd (randomIv e w))) (fst (randomIv e w)) opts) key
             (bytes_at (store (snd (randomIv e w))) plaintext)]"
    by (rule encrypt_forwards_generated(1))
  from a show "fst (encrypt e w key plaintext opts) =
        (case subtle_encrypt (getCrypto e)
                (forwarded_params (store (snd (randomIv e w))) (fst (randomIv e w)) opts) key
                (bytes_at (store (snd (randomIv e w))) plaintext) of
           Inl ex \<Rightarrow> Inl (DOMException ex)
         | Inr bs \<Rightarrow>
             Inr \<lparr>r_iv = fst (randomIv e w),
                  r_ciphertext = length (store (snd (randomIv e w)))\<rparr>)"
    by (rule encrypt_forwards_generated(2))
next
  assume a: "length (bytes_at (store w) i) = 12"
  then show "calls (snd (decrypt e w key i ciphertext opts)) =
        calls w @ [Decrypt (forwarded_params (store w) i opts) key (bytes_at (store w) ciphertext)]"
    by (rule decrypt_forwards(1))
  from a show "fst (decrypt e w key i ciphertext opts) =
        (case subtle_decrypt (getCrypto e) (forwarded_params (store w) i opts) key
                (bytes_at (store w) ciphertext) of
           Inl ex \<Rightarrow> Inl (DOMException ex)
         | Inr bs \<Rightarrow> Inr (length (store w)))"
    by (rule decrypt_forwards(2))
qed

theorem tagLength_not_validated_witness:
  "fst (encrypt fixture_env fixture_world fixture_key 1 (fixture_opts\<lparr>o_tagLength := Some 7\<rparr>)) =
     Inl (DOMException OperationError) \<and>
   calls (snd (encrypt fixture_env fixture_world fixture_key 1
     (fixture_opts\<lparr>o_tagLength := Some 7\<rparr>))) =
     [Encrypt \<lparr>p_name = ''AES-GCM'', p_iv = replicate 12 7, p_additionalData = Some [1, 2],
        p_tagLength = 7\<rparr> fixture_key [104, 105, 33]] \<and>
   calls (snd (decrypt fixture_env fixture_world fixture_key 0 1
     (fixture_opts\<lparr>o_tagLength := None\<rparr>))) =
     [Decrypt \<lparr>p_name = ''AES-GCM'', p_iv = replicate 12 7, p_additionalData = Some [1, 2],
        p_tagLength = 128\<rparr> fixture_key [104, 105, 33]]"
proof -
  have h: "o_iv (fixture_opts\<lparr>o_tagLength := Some 7\<rparr>) = Some 0 \<and>
      length (bytes_at (store fixture_world) 0) = 12"
    "length (bytes_at (store fixture_world) 0) = 12"
    by (simp_all add: fixture_opts_def fixture_world_def bytes_at_def)
  note illegal = tagLength_not_validated [where opts = "fixture_opts\<lparr>o_tagLength := Some 7\<rparr>"
      and i = 0 and e = fixture_env and w = fixture_world and key = fixture_key
      and plaintext = 1 and ciphertext = 1]
  note absent = tagLength_not_validated [where opts = "fixture_opts\<lparr>o_tagLength := None\<rparr>"
      and i = 0 and e = fixture_env and w = fixture_world and key = fixture_key
      and plaintext = 1 and ciphertext = 1]
  have "fst (encrypt fixture_env fixture_world fixture_key 1
      (fixture_opts\<lparr>o_tagLength := Some 7\<rparr>)) = Inl (DOMException OperationError)"
    using illegal h(1) by (simp add: forwarded_params_def fixture_defs)
  moreover have "calls (snd (encrypt fixture_env fixture_world fixture_key 1
     (fixture_opts\<lparr>o_tagLength := Some 7\<rparr>))) =
     [Encrypt \<lparr>p_name = ''AES-GCM'', p_iv = replicate 12 7, p_additionalData = Some [1, 2],
        p_tagLength = 7\<rparr> fixture_key [104, 105, 33]]"
    using illegal h(1) by (simp add: forwarded_params_def fixture_defs)
  moreover have "calls (snd (decrypt fixture_env fixture_world fixture_key 0 1
     (fixture_opts\<lparr>o_tagLength := None\<rparr>))) =
     [Decrypt \<lparr>p_name = ''AES-GCM'', p_iv = replicate 12 7, p_additionalData = Some [1, 2],
        p_tagLength = 128\<rparr> fixture_key [104, 105, 33]]"
    using absent h(2) by (simp add: forwarded_params_def fixture_defs)
  ultimately show ?thesis by blast
qed


section \<open>\<^verbatim>\<open>aes-gcm.ts\<close>: what the result of \<^verbatim>\<open>encrypt\<close> shares\<close>

lemma bytes_at_write_same:
  "r < length h \<Longrightarrow> bytes_at (write_byte h r j v) r = (bytes_at h r)[j := v]"
  by (simp add: bytes_at_def write_byte_def)

lemma bytes_at_write_other:
  "a \<noteq> r \<Longrightarrow> bytes_at (write_byte h r j v) a = bytes_at h a"
  by (simp add: bytes_at_def write_byte_def)

text \<open>
  C10. When \<^verbatim>\<open>encrypt\<close> is given the caller's iv \<open>i\<close> and returns a result, the
  result's \<^verbatim>\<open>iv\<close> is the reference \<open>i\<close> itself, so a later write into that array shows
  in the result's iv; the result's \<^verbatim>\<open>ciphertext\<close> is the one array the call created:
  its reference did not exist before, every array that existed before (the plaintext, the
  iv, the aad, any raw key bytes) keeps its contents, and a write into the ciphertext
  changes none of them, nor the other way round. A \<^verbatim>\<open>CryptoKey\<close> is an opaque handle and
  holds no reference into the store.
\<close>

theorem encrypt_result_aliasing:
  assumes iv: "o_iv opts = Some i" and ref: "i < length (store w)"
    and enc: "encrypt e w key plaintext opts = (Inr r, w')"
  shows "r_iv r = i \<and>
    bytes_at (write_byte (store w') i j v) (r_iv r) = (bytes_at (store w') i)[j := v] \<and>
    r_ciphertext r = length (store w) \<and>
    length (store w') = Suc (length (store w)) \<and>
    (\<forall>a. a < length (store w) \<longrightarrow>
       a \<noteq> r_ciphertext r \<and>
       bytes_at (store w') a = bytes_at (store w) a \<and>
       bytes_at (write_byte (store w') (r_ciphertext r) j v) a = bytes_at (store w') a \<and>
       bytes_at (write_byte (store w') a j v) (r_ciphertext r) =
         bytes_at (store w') (r_ciphertext r))"
proof -
  from enc iv obtain bs where
    w': "store w' = store w @ [bs]"
    and r: "r_iv r = i" "r_ciphertext r = length (store w)"
    by (auto simp: encrypt_def Let_def alloc_def split: sum.splits if_splits)
  have "bytes_at (write_byte (store w') i j v) (r_iv r) = (bytes_at (store w') i)[j := v]"
    using ref w' r(1) by (simp add: bytes_at_write_same)
  moreover have "a \<noteq> r_ciphertext r \<and>
       bytes_at (store w') a = bytes_at (store w) a \<and>
       bytes_at (write_byte (store w') (r_ciphertext r) j v) a = bytes_at (store w') a \<and>
       bytes_at (write_byte (store w') a j v) (r_ciphertext r) =
         bytes_at (store w') (r_ciphertext r)"
    if "a < length (store w)" for a
    using that w' r(2) by (simp add: bytes_at_write_other bytes_at_append_old)
  ultimately show ?thesis
    using w' r by simp
qed

theorem encrypt_result_aliasing_witness:
  "r_iv (projr (fst (encrypt fixture_env fixture_world fixture_key 1 fixture_opts))) = 0 \<and>
   bytes_at (write_byte (store (snd (encrypt fixture_env fixture_world fixture_key 1 fixture_opts)))
       0 3 255)
     (r_iv (projr (fst (encrypt fixture_env fixture_world fixture_key 1 fixture_opts)))) =
     [7, 7, 7, 255, 7, 7, 7, 7, 7, 7, 7, 7] \<and>
   r_ciphertext (projr (fst (encrypt fixture_env fixture_world fixture_key 1 fixture_opts))) = 5 \<and>
   length (store fixture_world) = 5"
proof -
  let ?r = "projr (fst (encrypt fixture_env fixture_world fixture_key 1 fixture_opts))"
  let ?w' = "snd (encrypt fixture_env fixture_world fixture_key 1 fixture_opts)"
  have enc: "encrypt fixture_env fixture_world fixture_key 1 fixture_opts = (Inr ?r, ?w')"
    using fixture_encrypt by (simp add: prod_eq_iff)
  have iv: "o_iv fixture_opts = Some 0" and ref: "0 < length (store fixture_world)"
    and len: "length (store fixture_world) = 5"
    by (simp_all add: fixture_opts_def fixture_world_def)
  have old: "bytes_at (store fixture_world) 0 = replicate 12 7"
    by (simp add: fixture_world_def bytes_at_def)
  have upd: "(replicate 12 (7 :: byte))[3 := 255] = [7, 7, 7, 255, 7, 7, 7, 7, 7, 7, 7, 7]"
    by (simp add: numeral_eq_Suc)
  note aliasing = encrypt_result_aliasing [OF iv ref enc, of 3 255]
  from aliasing have r0: "r_iv ?r = 0"
    by (rule conjunct1)
  from aliasing have wr: "bytes_at (write_byte (store ?w') 0 3 255) (r_iv ?r) =
      (bytes_at (store ?w') 0)[3 := 255]"
    by blast
  from aliasing ref have same: "bytes_at (store ?w') 0 = bytes_at (store fixture_world) 0"
    by blast
  from aliasing have rc: "r_ciphertext ?r = length (store fixture_world)"
    by blast
  have "bytes_at (write_byte (store ?w') 0 3 255) (r_iv ?r) =
      [7, 7, 7, 255, 7, 7, 7, 7, 7, 7, 7, 7]"
    by (simp only: wr same old upd)
  moreover have "r_ciphertext ?r = 5"
    by (simp only: rc len)
  ultimately show ?thesis
    using r0 len by blast
qed

section \<open>\<^verbatim>\<open>bytesToUtf8\<close>\<close>






section \<open>When \<^verbatim>\<open>fromBase64\<close> fails\<close>

lemma those_map_None: "those (map f xs) = None \<longleftrightarrow> (\<exists>x\<in>set xs. f x = None)"
  by (induction xs) (auto split: option.splits)

lemma all_alphabet_iff:
  "(\<forall>c\<in>set d. c \<in> set b64_alphabet) \<longleftrightarrow> \<not> outside_alphabet d \<and> 61 \<notin> set d"
  using b64_alphabet_excludes by (auto simp: outside_alphabet_def list_ex_iff)

lemma atob_succeeds_iff:
  "(\<exists>bs. atob s = Inr bs) \<longleftrightarrow>
     (let d1 = without_whitespace s;
          d2 = (if length d1 mod 4 = 0 then remove_padding d1 else d1)
      in length d2 mod 4 \<noteq> 1 \<and> \<not> outside_alphabet d2 \<and> 61 \<notin> set d2)"
proof -
  define d2 where "d2 = (if length (without_whitespace s) mod 4 = 0
    then remove_padding (without_whitespace s) else without_whitespace s)"
  have key: "those (map (\<lambda>c. index_of c b64_alphabet) d2) = None \<longleftrightarrow>
      \<not> (\<not> outside_alphabet d2 \<and> 61 \<notin> set d2)"
    unfolding all_alphabet_iff [symmetric] by (simp add: those_map_None index_of_None)
  have "atob s =
      (if length d2 mod 4 = 1 then Inl InvalidCharacterError
       else (case those (map (\<lambda>c. index_of c b64_alphabet) d2) of
               None \<Rightarrow> Inl InvalidCharacterError
             | Some vs \<Rightarrow> Inr (octets vs)))"
    by (simp add: atob_def d2_def without_whitespace_def Let_def)
  then have "(\<exists>bs. atob s = Inr bs) \<longleftrightarrow>
      length d2 mod 4 \<noteq> 1 \<and> those (map (\<lambda>c. index_of c b64_alphabet) d2) \<noteq> None"
    by (cases "those (map (\<lambda>c. index_of c b64_alphabet) d2)") simp_all
  with key show ?thesis
    by (simp add: d2_def Let_def)
qed

lemma atob_fails: "atob s = Inl ex \<Longrightarrow> ex = InvalidCharacterError"
  by (auto simp: atob_def Let_def split: if_splits option.splits)

lemma snoc_pad [simp]:
  "one_pad (xs @ [61]) \<longleftrightarrow> 61 \<notin> set xs"
  "two_pad (xs @ [61]) \<longleftrightarrow> one_pad xs"
  "remove_padding (xs @ [61]) = (if xs \<noteq> [] \<and> last xs = 61 then butlast xs else xs)"
  "outside_alphabet (xs @ [61]) = outside_alphabet xs"
  by (simp_all add: one_pad_def two_pad_def remove_padding_def outside_alphabet_def)

lemma snoc_no_pad [simp]:
  "x \<noteq> 61 \<Longrightarrow> \<not> one_pad (xs @ [x])"
  "x \<noteq> 61 \<Longrightarrow> \<not> two_pad (xs @ [x])"
  "x \<noteq> 61 \<Longrightarrow> remove_padding (xs @ [x]) = xs @ [x]"
  by (simp_all add: one_pad_def two_pad_def remove_padding_def)

lemma nil_pad [simp]: "\<not> one_pad []" "\<not> two_pad []" "remove_padding [] = []"
  "\<not> outside_alphabet []"
  by (simp_all add: one_pad_def two_pad_def remove_padding_def outside_alphabet_def)

lemma mod4_Suc: "Suc n mod 4 = 0 \<Longrightarrow> n mod 4 = 3"
  by presburger

lemma mod4_Suc_Suc: "Suc (Suc n) mod 4 = 0 \<Longrightarrow> n mod 4 = 2"
  by presburger

lemma padding_decides:
  "(let d2 = (if length d mod 4 = 0 then remove_padding d else d)
    in length d2 mod 4 \<noteq> 1 \<and> \<not> outside_alphabet d2 \<and> 61 \<notin> set d2) \<longleftrightarrow>
   \<not> outside_alphabet d \<and> valid_padding d"
proof (cases d rule: rev_cases)
  case Nil
  then show ?thesis
    by (simp add: valid_padding_def)
next
  case (snoc xs x)
  note d = this
  show ?thesis
  proof (cases "x = 61")
    case False
    with d show ?thesis
      by (auto simp: valid_padding_def)
  next
    case True
    note x = this
    show ?thesis
    proof (cases "length d mod 4 = 0")
      case False
      with d x show ?thesis
        by (simp add: valid_padding_def)
    next
      case True
      note len = this
      from d x have dx: "d = xs @ [61]" by simp
      show ?thesis
      proof (cases xs rule: rev_cases)
        case Nil
        with dx len show ?thesis by simp
      next
        case (snoc ys y)
        have l3: "length xs mod 4 = 3"
          using len dx by (simp add: mod4_Suc)
        show ?thesis
        proof (cases "y = 61")
          case False
          with snoc have xs: "xs \<noteq> []" "last xs \<noteq> 61" "\<not> one_pad xs"
            by simp_all
          have "remove_padding d = xs" "one_pad d \<longleftrightarrow> 61 \<notin> set xs" "\<not> two_pad d"
            "outside_alphabet d = outside_alphabet xs" "61 \<in> set d"
            unfolding dx using xs by simp_all
          with len l3 show ?thesis
            by (auto simp: valid_padding_def)
        next
          case True
          with snoc have xs: "xs = ys @ [61]" by simp
          have l2: "length ys mod 4 = 2"
            using len dx xs by (simp add: mod4_Suc_Suc)
          have "remove_padding d = ys" "\<not> one_pad d" "two_pad d \<longleftrightarrow> 61 \<notin> set ys"
            "outside_alphabet d = outside_alphabet ys" "61 \<in> set d"
            unfolding dx xs
            by (simp_all add: one_pad_def two_pad_def remove_padding_def outside_alphabet_def
                butlast_append)
          with len l2 show ?thesis
            by (auto simp: valid_padding_def)
        qed
      qed
    qed
  qed
qed

text \<open>
  C7, as the code has it. \<^verbatim>\<open>fromBase64\<close> ignores ASCII whitespace (TAB, LF, FF, CR,
  SPACE). On what remains it fails with InvalidEncoding exactly when a character is
  outside \<^verbatim>\<open>A-Z a-z 0-9 + / =\<close> or the padding is not valid, and it returns bytes
  otherwise; padding may be left out.
\<close>

theorem fromBase64_fails_iff:
  "(fromBase64 s = Inl InvalidEncoding \<longleftrightarrow>
      outside_alphabet (without_whitespace s) \<or> \<not> valid_padding (without_whitespace s)) \<and>
   ((\<exists>bytes. fromBase64 s = Inr bytes) \<longleftrightarrow>
      \<not> outside_alphabet (without_whitespace s) \<and> valid_padding (without_whitespace s))"
proof -
  have ok: "(\<exists>bs. atob s = Inr bs) \<longleftrightarrow>
      \<not> outside_alphabet (without_whitespace s) \<and> valid_padding (without_whitespace s)"
    unfolding atob_succeeds_iff using padding_decides [of "without_whitespace s"]
    by (simp add: Let_def)
  show ?thesis
  proof (cases "atob s")
    case (Inl ex)
    then have "ex = InvalidCharacterError" by (rule atob_fails)
    with Inl ok show ?thesis by (simp add: fromBase64_def)
  next
    case (Inr bs)
    with ok show ?thesis by (simp add: fromBase64_def)
  qed
qed

theorem fromBase64_fails_iff_witness:
  "fromBase64 (utf16 ''%%%'') = Inl InvalidEncoding \<and>
   fromBase64 (utf16 ''AQ='') = Inl InvalidEncoding \<and>
   fromBase64 (utf16 ''A'') = Inl InvalidEncoding \<and>
   (\<exists>bytes. fromBase64 (utf16 ''AQ=='') = Inr bytes) \<and>
   (\<exists>bytes. fromBase64 (utf16 ''AQ'') = Inr bytes)"
proof -
  have "outside_alphabet (without_whitespace (utf16 ''%%%''))"
    "\<not> valid_padding (without_whitespace (utf16 ''AQ=''))"
    "\<not> valid_padding (without_whitespace (utf16 ''A''))"
    "\<not> outside_alphabet (without_whitespace (utf16 ''AQ=='')) \<and>
       valid_padding (without_whitespace (utf16 ''AQ==''))"
    "\<not> outside_alphabet (without_whitespace (utf16 ''AQ'')) \<and>
       valid_padding (without_whitespace (utf16 ''AQ''))"
    by code_simp+
  with fromBase64_fails_iff [of "utf16 ''%%%''"] fromBase64_fails_iff [of "utf16 ''AQ=''"]
    fromBase64_fails_iff [of "utf16 ''A''"] fromBase64_fails_iff [of "utf16 ''AQ==''"]
    fromBase64_fails_iff [of "utf16 ''AQ''"]
  show ?thesis by blast
qed

text \<open>
  C7 as stated fails: \<^verbatim>\<open>"AQ =="\<close> contains a space, which is outside the alphabet, and
  \<^verbatim>\<open>fromBase64\<close> returns the byte 1 for it.
\<close>

theorem fromBase64_whitespace_counterexample:
  "outside_alphabet (utf16 ''AQ =='') \<and> fromBase64 (utf16 ''AQ =='') = Inr [1]"
  by code_simp


section \<open>\<^verbatim>\<open>decrypt\<close> returns the provider's plaintext or nothing\<close>

text \<open>
  \<^verbatim>\<open>decrypt\<close> has no fallback of its own: a plaintext array is created only for what
  the provider's \<^verbatim>\<open>decrypt\<close> returned for the 12-byte iv, the forwarded parameters, the
  key and the ciphertext bytes, and a failure creates no array. Whether a wrong key or a
  changed ciphertext is rejected is the provider's authentication, which is not modelled.
\<close>

lemma decrypt_all_or_nothing:
  "fst (decrypt e w key i ciphertext opts) = Inr pt \<Longrightarrow>
   length (bytes_at (store w) i) = 12 \<and>
   subtle_decrypt (getCrypto e) (forwarded_params (store w) i opts) key
     (bytes_at (store w) ciphertext) =
     Inr (bytes_at (store (snd (decrypt e w key i ciphertext opts))) pt)"
  by (auto simp: decrypt_def forwarded_params_def Let_def alloc_def DEFAULT_IV_BYTES_def
      DEFAULT_TAG_BITS_def bytes_at_append_new split: sum.splits option.splits if_splits)

lemma decrypt_failure_creates_nothing:
  "fst (decrypt e w key i ciphertext opts) = Inl err \<Longrightarrow>
   store (snd (decrypt e w key i ciphertext opts)) = store w"
  by (auto simp: decrypt_def Let_def alloc_def split: sum.splits if_splits)


end
